theory Spec2Isabelle
  imports Main
begin

section \<open>Values read from JSON\<close>

text \<open>
  The engine reads its state document with \<^verbatim>\<open>json.load\<close>, so every value it
  inspects is \<^verbatim>\<open>None\<close>, a \<^verbatim>\<open>bool\<close>, an \<^verbatim>\<open>int\<close>, a \<^verbatim>\<open>float\<close>, a
  \<^verbatim>\<open>str\<close>, a \<^verbatim>\<open>list\<close> or a \<^verbatim>\<open>dict\<close> with string keys. A dict keeps its
  insertion order, so it is an association list; Python's dicts never hold a key
  twice, which the theorems below state as \<open>distinct (map fst kvs)\<close> where they
  depend on it.

  The payload of a float is left abstract (the type parameter \<open>'f\<close>): the engine
  only asks whether it is zero and converts it with \<^verbatim>\<open>int()\<close>.
\<close>

datatype 'f json =
    JNull
  | JBool bool
  | JInt int
  | JFloat 'f
  | JStr string
  | JList "'f json list"
  | JObj "(string \<times> 'f json) list"

datatype py_error = AttributeError | TypeError | ValueError | OverflowError

text \<open>
  What the interpreter's built-ins do on values whose treatment is not written in
  the engine: \<^verbatim>\<open>int(s)\<close> on a string (the parsing of a numeral, \<^verbatim>\<open>ValueError\<close>
  otherwise), \<^verbatim>\<open>int(x)\<close> on a float (truncation, or an error on \<^verbatim>\<open>nan\<close> and
  \<^verbatim>\<open>inf\<close>) and the truth value of a float. They are parameters of the model.
\<close>

record 'f py_runtime =
  int_of_str :: "string \<Rightarrow> py_error + int"
  int_of_float :: "'f \<Rightarrow> py_error + int"
  float_truthy :: "'f \<Rightarrow> bool"

text \<open>Python's truth value testing, as used by \<^verbatim>\<open>not child\<close> and \<^verbatim>\<open>x or {}\<close>.\<close>

fun truthy :: "'f py_runtime \<Rightarrow> 'f json \<Rightarrow> bool" where
  "truthy rt JNull = False"
| "truthy rt (JBool b) = b"
| "truthy rt (JInt n) = (n \<noteq> 0)"
| "truthy rt (JFloat x) = float_truthy rt x"
| "truthy rt (JStr s) = (s \<noteq> [])"
| "truthy rt (JList xs) = (xs \<noteq> [])"
| "truthy rt (JObj kvs) = (kvs \<noteq> [])"

text \<open>\<^verbatim>\<open>int(v)\<close>: a bool is an int in Python; \<^verbatim>\<open>None\<close>, lists and dicts raise \<^verbatim>\<open>TypeError\<close>.\<close>

fun py_int :: "'f py_runtime \<Rightarrow> 'f json \<Rightarrow> py_error + int" where
  "py_int rt JNull = Inl TypeError"
| "py_int rt (JBool b) = Inr (if b then 1 else 0)"
| "py_int rt (JInt n) = Inr n"
| "py_int rt (JFloat x) = int_of_float rt x"
| "py_int rt (JStr s) = int_of_str rt s"
| "py_int rt (JList xs) = Inl TypeError"
| "py_int rt (JObj kvs) = Inl TypeError"

text \<open>\<^verbatim>\<open>d.get(k)\<close>: the value stored under \<open>k\<close>, \<^verbatim>\<open>None\<close> when the key is missing.\<close>

definition dict_get :: "(string \<times> 'f json) list \<Rightarrow> string \<Rightarrow> 'f json" where
  "dict_get d k = (case map_of d k of None \<Rightarrow> JNull | Some v \<Rightarrow> v)"

text \<open>
  \<^verbatim>\<open>d[k] = v\<close>: an existing key keeps its place and takes the new value, a new key
  goes to the end.
\<close>

fun dict_set :: "'k \<Rightarrow> 'v \<Rightarrow> ('k \<times> 'v) list \<Rightarrow> ('k \<times> 'v) list" where
  "dict_set k v [] = [(k, v)]"
| "dict_set k v (p # ps) = (if fst p = k then (k, v) # ps else p # dict_set k v ps)"


section \<open>Threshold bands and the action table\<close>

text \<open>The dataclass \<^verbatim>\<open>ThresholdBand(name, min, max)\<close>.\<close>

record ThresholdBand =
  name :: string
  min_band :: int
  max_band :: int

definition BANDS :: "ThresholdBand list" where
  "BANDS =
    [\<lparr>name = ''monitor'', min_band = 0, max_band = 39\<rparr>,
     \<lparr>name = ''soft'', min_band = 40, max_band = 69\<rparr>,
     \<lparr>name = ''active'', min_band = 70, max_band = 84\<rparr>,
     \<lparr>name = ''urgent'', min_band = 85, max_band = 100\<rparr>]"

text \<open>
  \<^verbatim>\<open>PARENT_ACTIONS\<close> is a dict literal with the two fixed keys \<^verbatim>\<open>"parentA"\<close> and
  \<^verbatim>\<open>"parentB"\<close>, each subscripted by a string literal in the code: a record with
  two fields. The inner dicts are looked up by metric name.
\<close>

record parent_actions =
  parentA :: "(string \<times> string) list"
  parentB :: "(string \<times> string) list"

definition PARENT_ACTIONS :: parent_actions where
  "PARENT_ACTIONS =
    \<lparr>parentA =
       [(''fear'', ''Talk calmly, validate emotion, guide one grounding breath cycle.''),
        (''anger'', ''De-escalate tone, acknowledge frustration, suggest a pause.''),
        (''bonding'', ''Initiate warm check-in and reaffirm relationship safety.''),
        (''protection'', ''Provide emotional safety and reassure child it is not alone.'')],
     parentB =
       [(''learning'', ''Break problem into 1 small lesson + 1 practice step.''),
        (''hunger'', ''Give one concrete task with clear reward and completion signal.''),
        (''protection'', ''Apply practical safeguards, boundaries, and contingency plan.'')]\<rparr>"


section \<open>Scores and bands\<close>

text \<open>\<^verbatim>\<open>clamp_score(v) = max(0, min(100, int(v)))\<close>; the conversion may raise.\<close>

definition clamp_score :: "'f py_runtime \<Rightarrow> 'f json \<Rightarrow> py_error + int" where
  "clamp_score rt v =
    (case py_int rt v of Inl e \<Rightarrow> Inl e | Inr n \<Rightarrow> Inr (max 0 (min 100 n)))"

text \<open>
  \<^verbatim>\<open>band_for_score\<close>: the first band of the list whose range holds the score, and
  \<^verbatim>\<open>"monitor"\<close> when the loop ends without a match.
\<close>

fun band_loop :: "ThresholdBand list \<Rightarrow> int \<Rightarrow> string" where
  "band_loop [] sc = ''monitor''"
| "band_loop (band # bands) sc =
    (if min_band band \<le> sc \<and> sc \<le> max_band band then name band else band_loop bands sc)"

definition band_for_score :: "int \<Rightarrow> string" where
  "band_for_score sc = band_loop BANDS sc"


section \<open>The evaluator\<close>

text \<open>An event dict \<^verbatim>\<open>{"metric", "score", "level"}\<close>.\<close>

record event =
  metric :: string
  score :: int
  level :: string

text \<open>
  The dict returned by \<^verbatim>\<open>evaluate_child\<close>. Its keys are fixed by the two
  \<^verbatim>\<open>return\<close> statements; a key that one of them leaves out is \<open>None\<close> here.
  \<^verbatim>\<open>childId\<close> and \<^verbatim>\<open>stage\<close> hold whatever JSON value the child carried
  (\<open>JNull\<close> when the child has no such key). The plan builder and the comparator
  take such dicts; the score map is a \<^verbatim>\<open>ScoreMap = Dict[str, int]\<close> as annotated,
  and its scores need not lie between 0 and 100 when the dict was not written by
  \<^verbatim>\<open>evaluate_child\<close>.
\<close>

record 'f evaluation =
  hasChild :: bool
  status :: string
  message :: "string option"
  childId :: "'f json option"
  stage :: "'f json option"
  scores :: "(string \<times> int) list option"
  events :: "event list"

definition no_child_evaluation :: "'f evaluation" where
  "no_child_evaluation =
    \<lparr>hasChild = False,
     status = ''no-child'',
     message = Some ''No child generated yet. Parenting instincts stay inactive.'',
     childId = None,
     stage = None,
     scores = None,
     events = []\<rparr>"

text \<open>
  \<^verbatim>\<open>(child.get("scores") or {}).items()\<close>: a falsy value is replaced by the empty
  dict; a truthy value that is no dict has no \<^verbatim>\<open>items\<close>.
\<close>

definition scores_items :: "'f py_runtime \<Rightarrow> 'f json \<Rightarrow> py_error + (string \<times> 'f json) list" where
  "scores_items rt s =
    (case (if truthy rt s then s else JObj []) of
       JObj kvs \<Rightarrow> Inr kvs
     | _ \<Rightarrow> Inl AttributeError)"

text \<open>
  The dict comprehension \<^verbatim>\<open>{k: clamp_score(v) for k, v in items}\<close>, item by item;
  the first conversion that raises ends it.
\<close>

fun scores_comp ::
  "'f py_runtime \<Rightarrow> (string \<times> 'f json) list \<Rightarrow> (string \<times> int) list \<Rightarrow> py_error + (string \<times> int) list"
where
  "scores_comp rt [] acc = Inr acc"
| "scores_comp rt ((k, v) # kvs) acc =
    (case clamp_score rt v of
       Inl e \<Rightarrow> Inl e
     | Inr c \<Rightarrow> scores_comp rt kvs (dict_set k c acc))"

text \<open>The loop over \<^verbatim>\<open>scores.items()\<close> that appends an event unless the band is monitor.\<close>

fun events_loop :: "(string \<times> int) list \<Rightarrow> event list \<Rightarrow> event list" where
  "events_loop [] evs = evs"
| "events_loop ((m, sc) # rest) evs =
    (let lv = band_for_score sc in
     if lv = ''monitor'' then events_loop rest evs
     else events_loop rest (evs @ [\<lparr>metric = m, score = sc, level = lv\<rparr>]))"

text \<open>
  \<^verbatim>\<open>sorted(events, key=lambda e: e["score"], reverse=True)\<close>. Python's sort is
  stable also under \<^verbatim>\<open>reverse=True\<close>: events of equal score keep their order.
  A stable ascending sort on the negated score does the same.
\<close>

definition sorted_events :: "event list \<Rightarrow> event list" where
  "sorted_events evs = sort_key (\<lambda>e. - score e) evs"

definition evaluate_child :: "'f py_runtime \<Rightarrow> (string \<times> 'f json) list \<Rightarrow> py_error + 'f evaluation" where
  "evaluate_child rt state =
    (let child = dict_get state ''child'' in
     if \<not> truthy rt child then Inr no_child_evaluation
     else
       (case child of
          JObj c \<Rightarrow>
            (case scores_items rt (dict_get c ''scores'') of
               Inl e \<Rightarrow> Inl e
             | Inr items \<Rightarrow>
                 (case scores_comp rt items [] of
                    Inl e \<Rightarrow> Inl e
                  | Inr sm \<Rightarrow>
                      Inr \<lparr>hasChild = True,
                           status = ''ok'',
                           message = None,
                           childId = Some (dict_get c ''id''),
                           stage = Some (dict_get c ''stage''),
                           scores = Some sm,
                           events = sorted_events (events_loop sm [])\<rparr>))
        | _ \<Rightarrow> Inl AttributeError))"


section \<open>The plan builder\<close>

record suggestion =
  parent :: string
  s_metric :: string
  s_level :: string
  action :: string

record cron =
  cron_name :: string
  kind :: string
  everyMinutes :: int
  purpose :: string
  enabledWhen :: "string option"
  startedAt :: "string option"

record plan =
  enabled :: bool
  reason :: string
  crons :: "cron list"
  suggestions :: "suggestion list"

text \<open>The body of the loop over the events: up to two appends per event.\<close>

fun suggestions_loop :: "event list \<Rightarrow> suggestion list \<Rightarrow> suggestion list" where
  "suggestions_loop [] sg = sg"
| "suggestions_loop (ev # evs) sg =
    (let m = metric ev;
         lv = level ev;
         sg1 = (case map_of (parentA PARENT_ACTIONS) m of
                  Some a \<Rightarrow> sg @ [\<lparr>parent = ''parentA'', s_metric = m, s_level = lv, action = a\<rparr>]
                | None \<Rightarrow> sg);
         sg2 = (case map_of (parentB PARENT_ACTIONS) m of
                  Some a \<Rightarrow> sg1 @ [\<lparr>parent = ''parentB'', s_metric = m, s_level = lv, action = a\<rparr>]
                | None \<Rightarrow> sg1)
     in suggestions_loop evs sg2)"

text \<open>
  The three cron descriptors. \<open>now\<close> is the text of
  \<^verbatim>\<open>datetime.now(timezone.utc).isoformat()\<close>, read from the clock in the code and
  a parameter here.
\<close>

definition plan_crons :: "string \<Rightarrow> cron list" where
  "plan_crons now =
    [\<lparr>cron_name = ''parentality-keepalive-check'',
      kind = ''every'',
      everyMinutes = 20,
      purpose = ''Recompute child scores and detect threshold crossings.'',
      enabledWhen = None,
      startedAt = None\<rparr>,
     \<lparr>cron_name = ''parentality-instinct-intervention'',
      kind = ''event-or-poll'',
      everyMinutes = 10,
      purpose = ''Trigger parent-specific complementary intervention suggestions.'',
      enabledWhen = Some ''child exists AND any score >= soft threshold'',
      startedAt = None\<rparr>,
     \<lparr>cron_name = ''parentality-recovery-check'',
      kind = ''every'',
      everyMinutes = 20,
      purpose = ''Compare post-action score against previous and close instinct context when improved.'',
      enabledWhen = None,
      startedAt = Some now\<rparr>]"

definition build_instinct_plan :: "string \<Rightarrow> 'f evaluation \<Rightarrow> plan" where
  "build_instinct_plan now eval_result =
    (if \<not> hasChild eval_result then
       \<lparr>enabled = False, reason = ''no-child'', crons = [], suggestions = []\<rparr>
     else if events eval_result = [] then
       \<lparr>enabled = True, reason = ''stable'', crons = [], suggestions = []\<rparr>
     else
       (let sg = suggestions_loop (events eval_result) [] in
        \<lparr>enabled = True, reason = ''threshold-crossed'', crons = plan_crons now, suggestions = sg\<rparr>))"


section \<open>The recovery comparator\<close>

record recovery =
  improvements :: "(string \<times> int) list"
  resolved :: bool
  unresolved :: "string list"
  nextAction :: string

text \<open>\<^verbatim>\<open>evaluation.get("scores", {})\<close>: the empty dict when the key is missing.\<close>

definition get_scores :: "'f evaluation \<Rightarrow> (string \<times> int) list" where
  "get_scores ev = (case scores ev of None \<Rightarrow> [] | Some sm \<Rightarrow> sm)"

text \<open>\<^verbatim>\<open>cur_scores.get(metric, prev)\<close>.\<close>

definition get_default :: "(string \<times> int) list \<Rightarrow> string \<Rightarrow> int \<Rightarrow> int" where
  "get_default d k dflt = (case map_of d k of None \<Rightarrow> dflt | Some v \<Rightarrow> v)"

text \<open>The loop over \<^verbatim>\<open>prev_scores.items()\<close>, carrying both accumulators.\<close>

fun compare_loop ::
  "(string \<times> int) list \<Rightarrow> (string \<times> int) list \<Rightarrow> int \<Rightarrow>
   (string \<times> int) list \<Rightarrow> string list \<Rightarrow> (string \<times> int) list \<times> string list"
where
  "compare_loop [] cur_scores min_improvement imp unr = (imp, unr)"
| "compare_loop ((m, prev) # rest) cur_scores min_improvement imp unr =
    (let cur = get_default cur_scores m prev;
         delta = prev - cur;
         imp' = dict_set m delta imp;
         unr' = (if band_for_score prev \<noteq> ''monitor'' \<and> delta < min_improvement
                    \<and> band_for_score cur \<noteq> ''monitor''
                 then unr @ [m] else unr)
     in compare_loop rest cur_scores min_improvement imp' unr')"

definition close_context_if_improved :: "'f evaluation \<Rightarrow> 'f evaluation \<Rightarrow> int \<Rightarrow> recovery" where
  "close_context_if_improved previous current min_improvement =
    (let prev_scores = get_scores previous;
         cur_scores = get_scores current;
         (imp, unr) = compare_loop prev_scores cur_scores min_improvement [] []
     in \<lparr>improvements = imp,
         resolved = (length unr = 0),
         unresolved = unr,
         nextAction = (if length unr = 0 then ''exit-instinct-context'' else ''continue-or-escalate'')\<rparr>)"

text \<open>The call without the third argument takes the default \<^verbatim>\<open>min_improvement = 8\<close>.\<close>

definition close_context_if_improved_default :: "'f evaluation \<Rightarrow> 'f evaluation \<Rightarrow> recovery" where
  "close_context_if_improved_default previous current = close_context_if_improved previous current 8"


section \<open>Well-formed documents, specifications and sample inputs\<close>

text \<open>
  A JSON value as Python holds it: no dict in it has a key twice.
\<close>

fun wf_json :: "'f json \<Rightarrow> bool" where
  "wf_json (JList xs) = list_all wf_json xs"
| "wf_json (JObj kvs) = (distinct (map fst kvs) \<and> list_all (\<lambda>kv. wf_json (snd kv)) kvs)"
| "wf_json v = True"

text \<open>
  What the specification says of the events, given the clamped score map \<open>sm\<close>: one
  event per metric scoring at least 40, none for a metric scoring at most 39, no
  event that is not of a metric of the map, and scores in descending order.
\<close>

definition events_as_specified :: "(string \<times> int) list \<Rightarrow> event list \<Rightarrow> bool" where
  "events_as_specified sm evs \<longleftrightarrow>
     (\<forall>(m, s)\<in>set sm.
        (40 \<le> s \<longrightarrow> filter (\<lambda>e. metric e = m) evs = [\<lparr>metric = m, score = s, level = band_for_score s\<rparr>]) \<and>
        (s \<le> 39 \<longrightarrow> filter (\<lambda>e. metric e = m) evs = [])) \<and>
     (\<forall>e\<in>set evs. (metric e, score e) \<in> set sm) \<and>
     sorted_wrt (\<lambda>a b. score b \<le> score a) evs"

text \<open>
  What the specification says of the suggestions: for an event, one record per
  actor, \<open>parentA\<close> before \<open>parentB\<close>, whose action table holds the event's metric,
  with that table's action string and the event's level.
\<close>

definition actor_tables :: "(string \<times> (string \<times> string) list) list" where
  "actor_tables = [(''parentA'', parentA PARENT_ACTIONS), (''parentB'', parentB PARENT_ACTIONS)]"

definition suggestions_for :: "event \<Rightarrow> suggestion list" where
  "suggestions_for ev =
     concat (map (\<lambda>(actor, table).
                    case map_of table (metric ev) of
                      Some a \<Rightarrow> [\<lparr>parent = actor, s_metric = metric ev, s_level = level ev, action = a\<rparr>]
                    | None \<Rightarrow> [])
                 actor_tables)"

text \<open>
  A runtime and a state document to run the definitions on. The runtime rejects
  every string and has no floats to convert.
\<close>

definition rt0 :: "unit py_runtime" where
  "rt0 = \<lparr>int_of_str = (\<lambda>s. Inl ValueError), int_of_float = (\<lambda>x. Inr 0), float_truthy = (\<lambda>x. True)\<rparr>"

definition state0 :: "(string \<times> unit json) list" where
  "state0 =
    [(''child'',
      JObj [(''id'', JStr ''c1''),
            (''scores'', JObj [(''learning'', JInt 50), (''hunger'', JInt 5), (''fear'', JInt 90)])])]"

text \<open>
  An evaluation as \<open>evaluate_child\<close> writes it for a child with the scores \<open>sm\<close>, or
  as the comparator reads it back from a file.
\<close>

definition scores_only :: "(string \<times> int) list \<Rightarrow> unit evaluation" where
  "scores_only sm =
     \<lparr>hasChild = True, status = ''ok'', message = None, childId = Some JNull, stage = Some JNull,
      scores = Some sm, events = sorted_events (events_loop sm [])\<rparr>"


section \<open>Bands, dicts and the loops of the evaluator\<close>

lemma band_for_score_cases:
  "band_for_score v =
    (if 0 \<le> v \<and> v \<le> 39 then ''monitor''
     else if 40 \<le> v \<and> v \<le> 69 then ''soft''
     else if 70 \<le> v \<and> v \<le> 84 then ''active''
     else if 85 \<le> v \<and> v \<le> 100 then ''urgent''
     else ''monitor'')"
  by (simp add: band_for_score_def BANDS_def)

lemma band_not_monitor_iff: "band_for_score v \<noteq> ''monitor'' \<longleftrightarrow> 40 \<le> v \<and> v \<le> 100"
  unfolding band_for_score_cases by (simp; arith)

lemma no_band_matches:
  "v < 0 \<or> 100 < v \<Longrightarrow> filter (\<lambda>b. min_band b \<le> v \<and> v \<le> max_band b) BANDS = []"
  unfolding BANDS_def by auto

lemma bands_adjacent:
  "map min_band (tl BANDS) = map (\<lambda>b. max_band b + 1) (butlast BANDS)"
  "min_band (hd BANDS) = 0" "max_band (last BANDS) = 100"
  unfolding BANDS_def by simp_all

lemma dict_set_fresh: "k \<notin> fst ` set d \<Longrightarrow> dict_set k v d = d @ [(k, v)]"
  by (induction d) auto

lemma set_dict_set: "set (dict_set k v d) \<subseteq> insert (k, v) (set d)"
  by (induction d) auto

lemma clamp_score_JInt: "clamp_score rt (JInt v) = Inr (max 0 (min 100 v))"
  by (simp add: clamp_score_def)

lemma clamp_score_range: "clamp_score rt j = Inr c \<Longrightarrow> 0 \<le> c \<and> c \<le> 100"
  by (auto simp: clamp_score_def split: sum.splits)

lemma scores_comp_range:
  "scores_comp rt kvs acc = Inr r \<Longrightarrow> \<forall>p\<in>set acc. 0 \<le> snd p \<and> snd p \<le> 100
    \<Longrightarrow> \<forall>p\<in>set r. 0 \<le> snd p \<and> snd p \<le> 100"
proof (induction kvs arbitrary: acc)
  case Nil
  then show ?case by simp
next
  case (Cons kv kvs)
  obtain k v where kv: "kv = (k, v)" by (cases kv)
  from Cons.prems(1) kv obtain c where c: "clamp_score rt v = Inr c"
    and rest: "scores_comp rt kvs (dict_set k c acc) = Inr r"
    by (auto split: sum.splits)
  have "\<forall>p\<in>set (dict_set k c acc). 0 \<le> snd p \<and> snd p \<le> 100"
    using set_dict_set [of k c acc] Cons.prems(2) clamp_score_range [OF c] by auto
  with Cons.IH [OF rest] show ?case by blast
qed

lemma scores_comp_distinct:
  "distinct (map fst kvs) \<Longrightarrow> fst ` set kvs \<inter> fst ` set acc = {}
    \<Longrightarrow> scores_comp rt kvs acc = Inr r
    \<Longrightarrow> \<exists>r'. r = acc @ r' \<and>
          list_all2 (\<lambda>kv kc. fst kc = fst kv \<and> clamp_score rt (snd kv) = Inr (snd kc)) kvs r'"
proof (induction kvs arbitrary: acc)
  case Nil
  then show ?case by simp
next
  case (Cons kv kvs)
  obtain k v where kv: "kv = (k, v)" by (cases kv)
  from Cons.prems(3) kv obtain c where c: "clamp_score rt v = Inr c"
    and rest: "scores_comp rt kvs (dict_set k c acc) = Inr r"
    by (auto split: sum.splits)
  have fresh: "k \<notin> fst ` set acc" using Cons.prems(2) kv by auto
  then have upd: "dict_set k c acc = acc @ [(k, c)]" by (rule dict_set_fresh)
  have d: "distinct (map fst kvs)" using Cons.prems(1) by simp
  have disj: "fst ` set kvs \<inter> fst ` set (acc @ [(k, c)]) = {}"
    using Cons.prems(1,2) kv by auto
  from Cons.IH [OF d disj] rest upd obtain r' where
    r': "r = (acc @ [(k, c)]) @ r'"
    and rel: "list_all2 (\<lambda>kv kc. fst kc = fst kv \<and> clamp_score rt (snd kv) = Inr (snd kc)) kvs r'"
    by auto
  show ?case
  proof (intro exI conjI)
    show "r = acc @ ((k, c) # r')" using r' by simp
    show "list_all2 (\<lambda>kv kc. fst kc = fst kv \<and> clamp_score rt (snd kv) = Inr (snd kc)) (kv # kvs) ((k, c) # r')"
      using rel c kv by simp
  qed
qed

lemma scores_comp_total:
  "\<forall>kv\<in>set kvs. \<exists>n. py_int rt (snd kv) = Inr n \<Longrightarrow> \<exists>r. scores_comp rt kvs acc = Inr r"
proof (induction kvs arbitrary: acc)
  case Nil
  then show ?case by simp
next
  case (Cons kv kvs)
  obtain k v where kv: "kv = (k, v)" by (cases kv)
  from Cons.prems kv obtain n where "py_int rt v = Inr n" by auto
  then have "clamp_score rt v = Inr (max 0 (min 100 n))" by (simp add: clamp_score_def)
  moreover have "\<exists>r. scores_comp rt kvs (dict_set k (max 0 (min 100 n)) acc) = Inr r"
    using Cons.IH Cons.prems by simp
  ultimately show ?case using kv by simp
qed

lemma events_loop_eq:
  "events_loop sm evs =
     evs @ map (\<lambda>p. \<lparr>metric = fst p, score = snd p, level = band_for_score (snd p)\<rparr>)
              (filter (\<lambda>p. band_for_score (snd p) \<noteq> ''monitor'') sm)"
  by (induction sm evs rule: events_loop.induct) (simp_all add: Let_def)

lemma set_sorted_events: "set (sorted_events evs) = set evs"
  by (simp add: sorted_events_def)

lemma filter_sorted_events: "filter P (sorted_events evs) = sorted_events (filter P evs)"
  by (simp add: sorted_events_def filter_sort)

lemma sorted_events_descending: "sorted_wrt (\<lambda>a b. score b \<le> score a) (sorted_events evs)"
proof -
  have "sorted (map (\<lambda>e. - score e) (sorted_events evs))"
    by (simp add: sorted_events_def)
  then show ?thesis by (simp add: sorted_map)
qed

lemma sorted_events_single: "sorted_events [e] = [e]"
  by (simp add: sorted_events_def)

lemma sorted_events_Nil: "sorted_events [] = []"
  by (simp add: sorted_events_def)

lemma wf_json_dict_get: "wf_json (JObj d) \<Longrightarrow> wf_json (dict_get d k)"
  by (auto simp: dict_get_def list_all_iff split: option.splits dest: map_of_SomeD)

lemma scores_items_distinct:
  "wf_json s \<Longrightarrow> scores_items rt s = Inr items \<Longrightarrow> distinct (map fst items)"
  by (cases s) (auto simp: scores_items_def split: if_splits)

lemma filter_metric_map:
  "distinct (map fst sm) \<Longrightarrow> (m, s) \<in> set sm \<Longrightarrow>
   filter (\<lambda>e. metric e = m)
     (map (\<lambda>p. \<lparr>metric = fst p, score = snd p, level = band_for_score (snd p)\<rparr>) (filter Q sm))
   = (if Q (m, s) then [\<lparr>metric = m, score = s, level = band_for_score s\<rparr>] else [])"
proof (induction sm)
  case Nil
  then show ?case by simp
next
  case (Cons p sm)
  show ?case
  proof (cases "p = (m, s)")
    case True
    have "m \<notin> fst ` set sm" using Cons.prems(1) True by auto
    then have "filter (\<lambda>e. metric e = m)
       (map (\<lambda>p. \<lparr>metric = fst p, score = snd p, level = band_for_score (snd p)\<rparr>) (filter Q sm)) = []"
      by (force simp: filter_empty_conv)
    with True show ?thesis by simp
  next
    case False
    then have in_rest: "(m, s) \<in> set sm" using Cons.prems(2) by simp
    then have "fst p \<noteq> m" using Cons.prems(1) by (cases p) force
    with Cons.IH [OF _ in_rest] Cons.prems(1) show ?thesis by simp
  qed
qed

lemma events_as_specified_events_loop:
  assumes d: "distinct (map fst sm)" and rng: "\<forall>p\<in>set sm. 0 \<le> snd p \<and> snd p \<le> 100"
  shows "events_as_specified sm (sorted_events (events_loop sm []))"
proof -
  let ?mk = "\<lambda>p::string \<times> int. \<lparr>metric = fst p, score = snd p, level = band_for_score (snd p)\<rparr>"
  let ?Q = "\<lambda>p::string \<times> int. band_for_score (snd p) \<noteq> ''monitor''"
  have loop: "events_loop sm [] = map ?mk (filter ?Q sm)"
    by (simp add: events_loop_eq)
  have per: "filter (\<lambda>e. metric e = m) (sorted_events (events_loop sm [])) =
      (if 40 \<le> s then [?mk (m, s)] else [])" if ms: "(m, s) \<in> set sm" for m s
  proof -
    have "filter (\<lambda>e. metric e = m) (events_loop sm []) = (if ?Q (m, s) then [?mk (m, s)] else [])"
      unfolding loop using filter_metric_map [OF d ms, of ?Q] by simp
    moreover have "?Q (m, s) \<longleftrightarrow> 40 \<le> s"
      using rng ms by (auto simp: band_not_monitor_iff)
    ultimately show ?thesis
      by (simp add: filter_sorted_events sorted_events_single sorted_events_Nil)
  qed
  have from_sm: "(metric e, score e) \<in> set sm" if "e \<in> set (sorted_events (events_loop sm []))" for e
    using that unfolding set_sorted_events loop by auto
  show ?thesis
    unfolding events_as_specified_def
    using per from_sm sorted_events_descending by auto
qed

lemma evaluate_child_truthy:
  assumes "evaluate_child rt state = Inr r" and "truthy rt (dict_get state ''child'')"
  shows "\<exists>c items sm.
           dict_get state ''child'' = JObj c \<and>
           scores_items rt (dict_get c ''scores'') = Inr items \<and>
           scores_comp rt items [] = Inr sm \<and>
           r = \<lparr>hasChild = True, status = ''ok'', message = None,
                childId = Some (dict_get c ''id''), stage = Some (dict_get c ''stage''),
                scores = Some sm, events = sorted_events (events_loop sm [])\<rparr>"
  using assms by (auto simp: evaluate_child_def Let_def split: json.splits sum.splits)

lemma evaluate_child_falsy:
  "\<not> truthy rt (dict_get state ''child'') \<Longrightarrow> evaluate_child rt state = Inr no_child_evaluation"
  by (simp add: evaluate_child_def)

lemma list_all2_keys:
  "list_all2 (\<lambda>kv kc. fst kc = fst kv \<and> R kv kc) xs ys \<Longrightarrow> map fst ys = map fst xs"
  by (induction xs ys rule: list_all2_induct) auto


lemma evaluate_child_state0:
  "evaluate_child rt0 state0 =
     Inr \<lparr>hasChild = True, status = ''ok'', message = None,
          childId = Some (JStr ''c1''), stage = Some JNull,
          scores = Some [(''learning'', 50), (''hunger'', 5), (''fear'', 90)],
          events = [\<lparr>metric = ''fear'', score = 90, level = ''urgent''\<rparr>,
                    \<lparr>metric = ''learning'', score = 50, level = ''soft''\<rparr>]\<rparr>"
  by (simp add: evaluate_child_def state0_def rt0_def dict_get_def scores_items_def clamp_score_def
      band_for_score_cases sorted_events_def Let_def)


section \<open>The loops of the plan builder and of the comparator\<close>

lemma suggestions_loop_eq:
  "suggestions_loop evs sg = sg @ concat (map suggestions_for evs)"
  by (induction evs arbitrary: sg)
    (simp_all add: suggestions_for_def actor_tables_def Let_def split: option.splits)

lemma suggestions_for_cases:
  "suggestions_for e =
    (case map_of (parentA PARENT_ACTIONS) (metric e) of
       Some a \<Rightarrow> [\<lparr>parent = ''parentA'', s_metric = metric e, s_level = level e, action = a\<rparr>]
     | None \<Rightarrow> []) @
    (case map_of (parentB PARENT_ACTIONS) (metric e) of
       Some b \<Rightarrow> [\<lparr>parent = ''parentB'', s_metric = metric e, s_level = level e, action = b\<rparr>]
     | None \<Rightarrow> [])"
  by (simp add: suggestions_for_def actor_tables_def)

lemma scores_only_protection:
  "hasChild (scores_only [(''protection'', 75)])"
  "events (scores_only [(''protection'', 75)]) = [\<lparr>metric = ''protection'', score = 75, level = ''active''\<rparr>]"
  by (simp_all add: scores_only_def band_for_score_cases sorted_events_def)

lemma scores_only_fear:
  "hasChild (scores_only [(''fear'', 90)])"
  "events (scores_only [(''fear'', 90)]) = [\<lparr>metric = ''fear'', score = 90, level = ''urgent''\<rparr>]"
  by (simp_all add: scores_only_def band_for_score_cases sorted_events_def)



lemma compare_loop_unresolved:
  "snd (compare_loop ps cur mi imp unr) =
     unr @ map fst (filter (\<lambda>(m, p). band_for_score p \<noteq> ''monitor'' \<and> p - get_default cur m p < mi
                                    \<and> band_for_score (get_default cur m p) \<noteq> ''monitor'') ps)"
  by (induction ps cur mi imp unr rule: compare_loop.induct) (simp_all add: Let_def)

lemma compare_loop_improvements:
  "distinct (map fst ps) \<Longrightarrow> fst ` set ps \<inter> fst ` set imp = {} \<Longrightarrow>
   fst (compare_loop ps cur mi imp unr) = imp @ map (\<lambda>(m, p). (m, p - get_default cur m p)) ps"
proof (induction ps cur mi imp unr rule: compare_loop.induct)
  case (1 cur mi imp unr)
  then show ?case by simp
next
  case (2 m prev rest cur mi imp unr)
  have fresh: "m \<notin> fst ` set imp" using "2.prems"(2) by auto
  have upd: "dict_set m (prev - get_default cur m prev) imp = imp @ [(m, prev - get_default cur m prev)]"
    using fresh by (rule dict_set_fresh)
  have d: "distinct (map fst rest)" using "2.prems"(1) by simp
  have disj: "fst ` set rest \<inter> fst ` set (imp @ [(m, prev - get_default cur m prev)]) = {}"
    using "2.prems" by auto
  show ?case
    using "2.IH" [OF refl refl refl refl d] disj upd by (simp add: Let_def)
qed

lemma close_context_unresolved_eq:
  "unresolved (close_context_if_improved previous current mi) =
     map fst (filter (\<lambda>(m, p). band_for_score p \<noteq> ''monitor''
                        \<and> p - get_default (get_scores current) m p < mi
                        \<and> band_for_score (get_default (get_scores current) m p) \<noteq> ''monitor'')
                (get_scores previous))"
  using compare_loop_unresolved [of "get_scores previous" "get_scores current" mi "[]" "[]"]
  by (auto simp: close_context_if_improved_def Let_def split: prod.splits)

lemma close_context_improvements_eq:
  "distinct (map fst (get_scores previous)) \<Longrightarrow>
   improvements (close_context_if_improved previous current mi) =
     map (\<lambda>(m, p). (m, p - get_default (get_scores current) m p)) (get_scores previous)"
  using compare_loop_improvements [of "get_scores previous" "[]" "get_scores current" mi "[]"]
  by (auto simp: close_context_if_improved_def Let_def split: prod.splits)

lemma close_context_resolved:
  "resolved (close_context_if_improved previous current mi) =
     (unresolved (close_context_if_improved previous current mi) = [])"
  "nextAction (close_context_if_improved previous current mi) =
     (if resolved (close_context_if_improved previous current mi)
      then ''exit-instinct-context'' else ''continue-or-escalate'')"
  by (simp_all add: close_context_if_improved_def Let_def split: prod.splits)

lemma distinct_keys_member:
  "distinct (map fst ps) \<Longrightarrow> (m, p) \<in> set ps \<Longrightarrow>
   m \<in> set (map fst (filter (\<lambda>(k, v). Q k v) ps)) \<longleftrightarrow> Q m p"
  by (induction ps) (auto simp: image_iff)

lemma get_scores_scores_only: "get_scores (scores_only sm) = sm"
  by (simp add: get_scores_def scores_only_def)

lemma map_fst_delta: "map fst (map (\<lambda>(m, p). (m, g m p)) ps) = map fst ps"
  by (induction ps) auto

lemma map_of_delta:
  "distinct (map fst ps) \<Longrightarrow> (m, p) \<in> set ps \<Longrightarrow>
   map_of (map (\<lambda>(m, p). (m, g m p)) ps) m = Some (g m p)"
  by (induction ps) (auto simp: image_iff)

lemma evaluate_child_events_hasChild:
  assumes "evaluate_child rt state = Inr ev" and "events ev \<noteq> []"
  shows "hasChild ev"
proof -
  have "truthy rt (dict_get state ''child'')"
    using assms by (cases "truthy rt (dict_get state ''child'')")
      (auto simp: evaluate_child_falsy no_child_evaluation_def)
  with assms(1) show ?thesis by (auto dest: evaluate_child_truthy)
qed

lemma third_branch:
  assumes "events ev \<noteq> []" and "hasChild ev \<or> (\<exists>rt state. evaluate_child rt state = Inr ev)"
  shows "build_instinct_plan now ev =
    \<lparr>enabled = True, reason = ''threshold-crossed'', crons = plan_crons now,
     suggestions = suggestions_loop (events ev) []\<rparr>"
proof -
  have "hasChild ev" using assms by (auto dest: evaluate_child_events_hasChild)
  with assms(1) show ?thesis by (simp add: build_instinct_plan_def Let_def)
qed


section \<open>The claims about the evaluator\<close>

text \<open>
  Claim C2. For every integer \<open>v\<close> from 0 to 100, \<open>band_for_score\<close> gives one band
  with inclusive boundaries: 0 to 39 is monitor, 40 to 69 soft, 70 to 84 active and
  85 to 100 urgent; exactly one band of \<open>BANDS\<close> holds \<open>v\<close>, and it is the one
  returned. The bands are contiguous: the first starts at 0, the last ends at 100,
  and each of the others starts right after the one before it ends.
\<close>

theorem band_for_score_partition:
  "(\<forall>v. 0 \<le> v \<and> v \<le> 100 \<longrightarrow>
      band_for_score v =
        (if v \<le> 39 then ''monitor'' else if v \<le> 69 then ''soft''
         else if v \<le> 84 then ''active'' else ''urgent'') \<and>
      map name (filter (\<lambda>b. min_band b \<le> v \<and> v \<le> max_band b) BANDS) = [band_for_score v]) \<and>
   band_for_score 39 = ''monitor'' \<and> band_for_score 40 = ''soft'' \<and>
   band_for_score 69 = ''soft'' \<and> band_for_score 70 = ''active'' \<and>
   band_for_score 84 = ''active'' \<and> band_for_score 85 = ''urgent'' \<and>
   band_for_score 100 = ''urgent'' \<and>
   min_band (hd BANDS) = 0 \<and> max_band (last BANDS) = 100 \<and>
   map min_band (tl BANDS) = map (\<lambda>b. max_band b + 1) (butlast BANDS)"
proof -
  have "band_for_score v =
        (if v \<le> 39 then ''monitor'' else if v \<le> 69 then ''soft''
         else if v \<le> 84 then ''active'' else ''urgent'')"
    if "0 \<le> v" "v \<le> 100" for v
    using that by (simp add: band_for_score_cases)
  moreover have "map name (filter (\<lambda>b. min_band b \<le> v \<and> v \<le> max_band b) BANDS) = [band_for_score v]"
    if "0 \<le> v" "v \<le> 100" for v
    using that unfolding band_for_score_def BANDS_def by simp
  moreover have "band_for_score 39 = ''monitor''" "band_for_score 40 = ''soft''"
    "band_for_score 69 = ''soft''" "band_for_score 70 = ''active''"
    "band_for_score 84 = ''active''" "band_for_score 85 = ''urgent''"
    "band_for_score 100 = ''urgent''"
    by (simp_all add: band_for_score_cases)
  ultimately show ?thesis using bands_adjacent by simp
qed

theorem band_for_score_partition_witness:
  "(0::int) \<le> 55 \<and> (55::int) \<le> 100 \<and> band_for_score 55 = ''soft'' \<and>
   map name (filter (\<lambda>b. min_band b \<le> 55 \<and> 55 \<le> max_band b) BANDS) = [''soft'']"
proof -
  from band_for_score_partition
  have "0 \<le> (55::int) \<and> (55::int) \<le> 100 \<longrightarrow>
      band_for_score 55 =
        (if (55::int) \<le> 39 then ''monitor'' else if (55::int) \<le> 69 then ''soft''
         else if (55::int) \<le> 84 then ''active'' else ''urgent'') \<and>
      map name (filter (\<lambda>b. min_band b \<le> 55 \<and> 55 \<le> max_band b) BANDS) = [band_for_score 55]"
    by blast
  then show ?thesis by simp
qed

text \<open>
  Claim C8. \<open>clamp_score\<close> maps every integer \<open>v\<close> to \<open>max 0 (min 100 v)\<close>, which lies
  between 0 and 100 and is \<open>v\<close> itself when \<open>v\<close> already does; whatever JSON value
  it is given, a result it returns lies between 0 and 100. So every score of the
  score map of an evaluation that \<open>evaluate_child\<close> returns, and every event
  score, lies between 0 and 100.
\<close>

theorem clamp_score_bounds:
  "clamp_score rt (JInt v) = Inr (max 0 (min 100 v)) \<and>
   0 \<le> max 0 (min 100 v) \<and> max 0 (min 100 v) \<le> 100 \<and>
   (0 \<le> v \<and> v \<le> 100 \<longrightarrow> clamp_score rt (JInt v) = Inr v) \<and>
   (\<forall>j c. clamp_score rt j = Inr c \<longrightarrow> 0 \<le> c \<and> c \<le> 100) \<and>
   (\<forall>state r. evaluate_child rt state = Inr r \<longrightarrow>
      (\<forall>sm. scores r = Some sm \<longrightarrow> (\<forall>(m, s)\<in>set sm. 0 \<le> s \<and> s \<le> 100)) \<and>
      (\<forall>e\<in>set (events r). 0 \<le> score e \<and> score e \<le> 100))"
proof (intro conjI allI impI)
  show "clamp_score rt (JInt v) = Inr (max 0 (min 100 v))" by (rule clamp_score_JInt)
  show "0 \<le> max 0 (min 100 v)" by simp
  show "max 0 (min 100 v) \<le> 100" by simp
  show "clamp_score rt (JInt v) = Inr v" if "0 \<le> v \<and> v \<le> 100"
    using that by (simp add: clamp_score_JInt)
  show "0 \<le> c" if "clamp_score rt j = Inr c" for j c
    using clamp_score_range [OF that] by simp
  show "c \<le> 100" if "clamp_score rt j = Inr c" for j c
    using clamp_score_range [OF that] by simp
next
  fix state r sm
  assume ev: "evaluate_child rt state = Inr r" and sm: "scores r = Some sm"
  have "truthy rt (dict_get state ''child'')"
    using ev sm by (cases "truthy rt (dict_get state ''child'')")
      (auto simp: evaluate_child_falsy no_child_evaluation_def)
  from evaluate_child_truthy [OF ev this] sm obtain items where
    "scores_comp rt items [] = Inr sm" by auto
  from scores_comp_range [OF this] show "\<forall>(m, s)\<in>set sm. 0 \<le> s \<and> s \<le> 100" by auto
next
  fix state r
  assume ev: "evaluate_child rt state = Inr r"
  show "\<forall>e\<in>set (events r). 0 \<le> score e \<and> score e \<le> 100"
  proof (cases "truthy rt (dict_get state ''child'')")
    case False
    then have "r = no_child_evaluation" using ev by (simp add: evaluate_child_falsy)
    then show ?thesis by (simp add: no_child_evaluation_def)
  next
    case True
    from evaluate_child_truthy [OF ev True] obtain items sm where
      comp: "scores_comp rt items [] = Inr sm"
      and evs: "events r = sorted_events (events_loop sm [])" by auto
    have "\<forall>p\<in>set sm. 0 \<le> snd p \<and> snd p \<le> 100" using scores_comp_range [OF comp] by simp
    then show ?thesis unfolding evs set_sorted_events events_loop_eq by auto
  qed
qed

theorem clamp_score_bounds_witness:
  "clamp_score rt0 (JInt 150) = Inr 100 \<and> clamp_score rt0 (JInt (- 7)) = Inr 0 \<and>
   (0::int) \<le> 42 \<and> (42::int) \<le> 100 \<and> clamp_score rt0 (JInt 42) = Inr 42 \<and>
   (\<exists>r sm. evaluate_child rt0 state0 = Inr r \<and> scores r = Some sm \<and>
      list_all (\<lambda>p. 0 \<le> snd p \<and> snd p \<le> 100) sm \<and>
      list_all (\<lambda>e. 0 \<le> score e \<and> score e \<le> 100) (events r))"
  using clamp_score_bounds [of rt0 150] clamp_score_bounds [of rt0 "- 7"]
    clamp_score_bounds [of rt0 42] evaluate_child_state0
  by (auto simp: list_all_iff)

text \<open>
  Claim C9. When the state document has no \<open>child\<close> key, or holds a falsy value
  under it (\<^verbatim>\<open>null\<close>, \<^verbatim>\<open>false\<close>, zero, an empty string, list or dict),
  \<open>evaluate_child\<close> raises nothing and returns the no-child evaluation: \<open>hasChild\<close>
  false, status no-child, the message, no events, and no \<open>childId\<close>, \<open>stage\<close> or
  \<open>scores\<close> key.
\<close>

theorem evaluate_child_no_child:
  assumes "map_of state ''child'' = None \<or> (\<exists>c. map_of state ''child'' = Some c \<and> \<not> truthy rt c)"
  shows "evaluate_child rt state =
     Inr \<lparr>hasChild = False, status = ''no-child'',
          message = Some ''No child generated yet. Parenting instincts stay inactive.'',
          childId = None, stage = None, scores = None, events = []\<rparr>"
proof -
  have "\<not> truthy rt (dict_get state ''child'')"
    using assms by (auto simp: dict_get_def)
  then show ?thesis by (simp add: evaluate_child_falsy no_child_evaluation_def)
qed

theorem evaluate_child_no_child_witness:
  "map_of ([] :: (string \<times> unit json) list) ''child'' = None \<and>
   evaluate_child rt0 [] = Inr no_child_evaluation \<and>
   map_of [(''child'', JObj [] :: unit json)] ''child'' = Some (JObj []) \<and>
   \<not> truthy rt0 (JObj []) \<and>
   evaluate_child rt0 [(''child'', JObj [])] = Inr no_child_evaluation \<and>
   evaluate_child rt0 [(''child'', JNull)] = Inr no_child_evaluation \<and>
   evaluate_child rt0 [(''child'', JInt 0)] = Inr no_child_evaluation"
  using evaluate_child_no_child [of "[]" rt0]
    evaluate_child_no_child [of "[(''child'', JObj [])]" rt0]
    evaluate_child_no_child [of "[(''child'', JNull)]" rt0]
    evaluate_child_no_child [of "[(''child'', JInt 0)]" rt0]
  by (simp add: no_child_evaluation_def)

text \<open>
  Claim C3. For a state document with a truthy \<open>child\<close>: whenever
  \<open>evaluate_child\<close> returns, the child is a dict, the returned score map holds each
  metric of the child's scores with its clamped score, and the events are as
  specified over that map: exactly one event \<open>{metric, score, level}\<close> for each
  metric whose clamped score is at least 40, none for a metric whose clamped score is
  at most 39, in descending order of score. And it does return when the child is a
  dict whose \<open>scores\<close> are falsy or a dict of values that \<^verbatim>\<open>int()\<close> accepts.
\<close>

theorem evaluate_child_events:
  assumes wf: "wf_json (JObj state)" and child: "truthy rt (dict_get state ''child'')"
  shows "(\<forall>r. evaluate_child rt state = Inr r \<longrightarrow>
            (\<exists>c items sm.
               dict_get state ''child'' = JObj c \<and>
               scores_items rt (dict_get c ''scores'') = Inr items \<and>
               list_all2 (\<lambda>kv kc. fst kc = fst kv \<and> clamp_score rt (snd kv) = Inr (snd kc)) items sm \<and>
               scores r = Some sm \<and>
               events_as_specified sm (events r))) \<and>
         ((\<exists>c items. dict_get state ''child'' = JObj c \<and>
               scores_items rt (dict_get c ''scores'') = Inr items \<and>
               (\<forall>kv\<in>set items. \<exists>n. py_int rt (snd kv) = Inr n)) \<longrightarrow>
            (\<exists>r. evaluate_child rt state = Inr r))"
proof (intro conjI allI impI)
  fix r
  assume ev: "evaluate_child rt state = Inr r"
  from evaluate_child_truthy [OF ev child] obtain c items sm where
    c: "dict_get state ''child'' = JObj c"
    and items: "scores_items rt (dict_get c ''scores'') = Inr items"
    and comp: "scores_comp rt items [] = Inr sm"
    and r: "r = \<lparr>hasChild = True, status = ''ok'', message = None,
                childId = Some (dict_get c ''id''), stage = Some (dict_get c ''stage''),
                scores = Some sm, events = sorted_events (events_loop sm [])\<rparr>"
    by blast
  have "wf_json (JObj c)" using wf_json_dict_get [OF wf, of "''child''"] c by simp
  then have "wf_json (dict_get c ''scores'')" by (rule wf_json_dict_get)
  then have d: "distinct (map fst items)" using items by (rule scores_items_distinct)
  from scores_comp_distinct [OF d _ comp]
  have rel: "list_all2 (\<lambda>kv kc. fst kc = fst kv \<and> clamp_score rt (snd kv) = Inr (snd kc)) items sm"
    by simp
  have dsm: "distinct (map fst sm)" using list_all2_keys [OF rel] d by simp
  have rng: "\<forall>p\<in>set sm. 0 \<le> snd p \<and> snd p \<le> 100"
    using scores_comp_range [OF comp] by simp
  have "events_as_specified sm (events r)"
    using events_as_specified_events_loop [OF dsm rng] r by simp
  with c items rel r
  show "\<exists>c items sm.
          dict_get state ''child'' = JObj c \<and>
          scores_items rt (dict_get c ''scores'') = Inr items \<and>
          list_all2 (\<lambda>kv kc. fst kc = fst kv \<and> clamp_score rt (snd kv) = Inr (snd kc)) items sm \<and>
          scores r = Some sm \<and>
          events_as_specified sm (events r)"
    by auto
next
  assume "\<exists>c items. dict_get state ''child'' = JObj c \<and>
            scores_items rt (dict_get c ''scores'') = Inr items \<and>
            (\<forall>kv\<in>set items. \<exists>n. py_int rt (snd kv) = Inr n)"
  then obtain c items where c: "dict_get state ''child'' = JObj c"
    and items: "scores_items rt (dict_get c ''scores'') = Inr items"
    and conv: "\<forall>kv\<in>set items. \<exists>n. py_int rt (snd kv) = Inr n"
    by blast
  from scores_comp_total [OF conv, of "[]"] obtain sm where "scores_comp rt items [] = Inr sm"
    by blast
  with c items child show "\<exists>r. evaluate_child rt state = Inr r"
    by (simp add: evaluate_child_def)
qed

theorem evaluate_child_events_witness:
  "wf_json (JObj state0) \<and> truthy rt0 (dict_get state0 ''child'') \<and>
   (\<exists>c items. dict_get state0 ''child'' = JObj c \<and>
      scores_items rt0 (dict_get c ''scores'') = Inr items \<and>
      list_all (\<lambda>kv. \<exists>n. py_int rt0 (snd kv) = Inr n) items) \<and>
   (\<exists>r. evaluate_child rt0 state0 = Inr r \<and>
     (\<exists>sm. scores r = Some sm \<and> events_as_specified sm (events r)) \<and>
     events r = [\<lparr>metric = ''fear'', score = 90, level = ''urgent''\<rparr>,
                 \<lparr>metric = ''learning'', score = 50, level = ''soft''\<rparr>])"
proof -
  have wf: "wf_json (JObj state0)" by (simp add: state0_def)
  have tr: "truthy rt0 (dict_get state0 ''child'')" by (simp add: state0_def dict_get_def)
  have schema: "\<exists>c items. dict_get state0 ''child'' = JObj c \<and>
      scores_items rt0 (dict_get c ''scores'') = Inr items \<and>
      (\<forall>kv\<in>set items. \<exists>n. py_int rt0 (snd kv) = Inr n)"
    by (simp add: state0_def dict_get_def scores_items_def)
  note t = evaluate_child_events [OF wf tr]
  from t schema obtain r where r: "evaluate_child rt0 state0 = Inr r" by blast
  with t have spec: "\<exists>sm. scores r = Some sm \<and> events_as_specified sm (events r)" by blast
  from r have evs: "events r = [\<lparr>metric = ''fear'', score = 90, level = ''urgent''\<rparr>,
                 \<lparr>metric = ''learning'', score = 50, level = ''soft''\<rparr>]"
    by (auto simp: evaluate_child_state0)
  from schema have schema': "\<exists>c items. dict_get state0 ''child'' = JObj c \<and>
      scores_items rt0 (dict_get c ''scores'') = Inr items \<and>
      list_all (\<lambda>kv. \<exists>n. py_int rt0 (snd kv) = Inr n) items"
    by (simp add: list_all_iff)
  from r spec evs have "\<exists>r. evaluate_child rt0 state0 = Inr r \<and>
     (\<exists>sm. scores r = Some sm \<and> events_as_specified sm (events r)) \<and>
     events r = [\<lparr>metric = ''fear'', score = 90, level = ''urgent''\<rparr>,
                 \<lparr>metric = ''learning'', score = 50, level = ''soft''\<rparr>]"
    by (intro exI [of _ r] conjI)
  with wf tr schema' show ?thesis by (intro conjI)
qed


section \<open>The claims about the plan builder\<close>

text \<open>
  Claim C5. \<open>build_instinct_plan\<close> is a case analysis on its input evaluation: with
  \<open>hasChild\<close> false it returns the disabled plan with reason no-child and no crons or
  suggestions; with \<open>hasChild\<close> true and no events, the enabled plan with reason
  stable and no crons or suggestions; in the remaining case, \<open>hasChild\<close> true and at
  least one event, an enabled plan with reason threshold-crossed. An evaluation that
  \<open>evaluate_child\<close> returned has events only when \<open>hasChild\<close> is true, so for it
  one event is enough for the last case.
\<close>

theorem build_instinct_plan_cases:
  "(\<not> hasChild ev \<longrightarrow>
      build_instinct_plan now ev = \<lparr>enabled = False, reason = ''no-child'', crons = [], suggestions = []\<rparr>) \<and>
   (hasChild ev \<and> events ev = [] \<longrightarrow>
      build_instinct_plan now ev = \<lparr>enabled = True, reason = ''stable'', crons = [], suggestions = []\<rparr>) \<and>
   (hasChild ev \<and> events ev \<noteq> [] \<longrightarrow>
      enabled (build_instinct_plan now ev) \<and> reason (build_instinct_plan now ev) = ''threshold-crossed'') \<and>
   (\<forall>rt state. evaluate_child rt state = Inr ev \<and> events ev \<noteq> [] \<longrightarrow>
      enabled (build_instinct_plan now ev) \<and> reason (build_instinct_plan now ev) = ''threshold-crossed'')"
proof (intro conjI allI impI)
  show "build_instinct_plan now ev = \<lparr>enabled = False, reason = ''no-child'', crons = [], suggestions = []\<rparr>"
    if "\<not> hasChild ev"
    using that by (simp add: build_instinct_plan_def)
  show "build_instinct_plan now ev = \<lparr>enabled = True, reason = ''stable'', crons = [], suggestions = []\<rparr>"
    if "hasChild ev \<and> events ev = []"
    using that by (simp add: build_instinct_plan_def)
  show "enabled (build_instinct_plan now ev)" if "hasChild ev \<and> events ev \<noteq> []"
    using that by (simp add: build_instinct_plan_def Let_def)
  show "reason (build_instinct_plan now ev) = ''threshold-crossed''" if "hasChild ev \<and> events ev \<noteq> []"
    using that by (simp add: build_instinct_plan_def Let_def)
next
  fix rt :: "'a py_runtime" and state
  assume a: "evaluate_child rt state = Inr ev \<and> events ev \<noteq> []"
  then have h: "hasChild ev" by (auto dest: evaluate_child_events_hasChild)
  with a show "enabled (build_instinct_plan now ev)"
    by (simp add: build_instinct_plan_def Let_def)
  from a h show "reason (build_instinct_plan now ev) = ''threshold-crossed''"
    by (simp add: build_instinct_plan_def Let_def)
qed

theorem build_instinct_plan_cases_witness:
  "\<not> hasChild (no_child_evaluation :: unit evaluation) \<and>
   build_instinct_plan ''t'' (no_child_evaluation :: unit evaluation) =
     \<lparr>enabled = False, reason = ''no-child'', crons = [], suggestions = []\<rparr> \<and>
   hasChild (scores_only [(''fear'', 10), (''hunger'', 5)]) \<and>
   events (scores_only [(''fear'', 10), (''hunger'', 5)]) = [] \<and>
   build_instinct_plan ''t'' (scores_only [(''fear'', 10), (''hunger'', 5)]) =
     \<lparr>enabled = True, reason = ''stable'', crons = [], suggestions = []\<rparr> \<and>
   hasChild (scores_only [(''fear'', 90)]) \<and>
   events (scores_only [(''fear'', 90)]) \<noteq> [] \<and>
   enabled (build_instinct_plan ''t'' (scores_only [(''fear'', 90)])) \<and>
   reason (build_instinct_plan ''t'' (scores_only [(''fear'', 90)])) = ''threshold-crossed'' \<and>
   (\<exists>r. evaluate_child rt0 state0 = Inr r \<and> events r \<noteq> [] \<and>
      enabled (build_instinct_plan ''t'' r) \<and> reason (build_instinct_plan ''t'' r) = ''threshold-crossed'')"
proof -
  have a: "\<not> hasChild (no_child_evaluation :: unit evaluation)"
    by (simp add: no_child_evaluation_def)
  have b: "hasChild (scores_only [(''fear'', 10), (''hunger'', 5)]) \<and>
           events (scores_only [(''fear'', 10), (''hunger'', 5)]) = []"
    by (simp add: scores_only_def band_for_score_cases sorted_events_def)
  have c: "hasChild (scores_only [(''fear'', 90)]) \<and> events (scores_only [(''fear'', 90)]) \<noteq> []"
    by (simp add: scores_only_def band_for_score_cases sorted_events_def)
  obtain r where r: "evaluate_child rt0 state0 = Inr r" and ne: "events r \<noteq> []"
    using evaluate_child_state0 by simp
  have p1: "build_instinct_plan ''t'' (no_child_evaluation :: unit evaluation) =
      \<lparr>enabled = False, reason = ''no-child'', crons = [], suggestions = []\<rparr>"
    by (rule build_instinct_plan_cases [THEN conjunct1, THEN mp, OF a])
  have p2: "build_instinct_plan ''t'' (scores_only [(''fear'', 10), (''hunger'', 5)]) =
      \<lparr>enabled = True, reason = ''stable'', crons = [], suggestions = []\<rparr>"
    by (rule build_instinct_plan_cases [THEN conjunct2, THEN conjunct1, THEN mp, OF b])
  have p3: "enabled (build_instinct_plan ''t'' (scores_only [(''fear'', 90)])) \<and>
      reason (build_instinct_plan ''t'' (scores_only [(''fear'', 90)])) = ''threshold-crossed''"
    by (rule build_instinct_plan_cases
        [THEN conjunct2, THEN conjunct2, THEN conjunct1, THEN mp, OF c])
  have "evaluate_child rt0 state0 = Inr r \<and> events r \<noteq> []" using r ne by simp
  then have p4: "enabled (build_instinct_plan ''t'' r) \<and>
      reason (build_instinct_plan ''t'' r) = ''threshold-crossed''"
    by (rule build_instinct_plan_cases
        [THEN conjunct2, THEN conjunct2, THEN conjunct2, THEN spec, THEN spec, THEN mp])
  from p4 r ne have q4: "\<exists>r. evaluate_child rt0 state0 = Inr r \<and> events r \<noteq> [] \<and>
      enabled (build_instinct_plan ''t'' r) \<and> reason (build_instinct_plan ''t'' r) = ''threshold-crossed''"
    by (intro exI [of _ r]) simp
  from a p1 b p2 c p3 q4 show ?thesis by (intro conjI) (erule conjunct1 conjunct2 | assumption)+
qed

text \<open>
  Claim C6. When there is at least one event, in an evaluation with \<open>hasChild\<close> true
  or one that \<open>evaluate_child\<close> returned, the suggestions are, for every event in
  order, one record per actor whose action table holds the event's metric, with that
  actor's action string and the event's level: two records for a metric under both
  actors, one for a metric under one of them, none for a metric under neither.
\<close>

theorem build_instinct_plan_suggestions:
  assumes "events ev \<noteq> []"
    and "hasChild ev \<or> (\<exists>rt state. evaluate_child rt state = Inr ev)"
  shows "suggestions (build_instinct_plan now ev) = concat (map suggestions_for (events ev)) \<and>
    (\<forall>e a b. map_of (parentA PARENT_ACTIONS) (metric e) = Some a \<and>
             map_of (parentB PARENT_ACTIONS) (metric e) = Some b \<longrightarrow>
       suggestions_for e =
         [\<lparr>parent = ''parentA'', s_metric = metric e, s_level = level e, action = a\<rparr>,
          \<lparr>parent = ''parentB'', s_metric = metric e, s_level = level e, action = b\<rparr>]) \<and>
    (\<forall>e a. map_of (parentA PARENT_ACTIONS) (metric e) = Some a \<and>
           map_of (parentB PARENT_ACTIONS) (metric e) = None \<longrightarrow>
       suggestions_for e =
         [\<lparr>parent = ''parentA'', s_metric = metric e, s_level = level e, action = a\<rparr>]) \<and>
    (\<forall>e b. map_of (parentA PARENT_ACTIONS) (metric e) = None \<and>
           map_of (parentB PARENT_ACTIONS) (metric e) = Some b \<longrightarrow>
       suggestions_for e =
         [\<lparr>parent = ''parentB'', s_metric = metric e, s_level = level e, action = b\<rparr>]) \<and>
    (\<forall>e. map_of (parentA PARENT_ACTIONS) (metric e) = None \<and>
         map_of (parentB PARENT_ACTIONS) (metric e) = None \<longrightarrow>
       suggestions_for e = [])"
proof -
  have "suggestions (build_instinct_plan now ev) = concat (map suggestions_for (events ev))"
    by (simp add: third_branch [OF assms] suggestions_loop_eq)
  then show ?thesis by (simp add: suggestions_for_cases)
qed

theorem build_instinct_plan_suggestions_witness:
  "events (scores_only [(''protection'', 75)]) \<noteq> [] \<and>
   hasChild (scores_only [(''protection'', 75)]) \<and>
   suggestions (build_instinct_plan ''t'' (scores_only [(''protection'', 75)])) =
     [\<lparr>parent = ''parentA'', s_metric = ''protection'', s_level = ''active'',
       action = ''Provide emotional safety and reassure child it is not alone.''\<rparr>,
      \<lparr>parent = ''parentB'', s_metric = ''protection'', s_level = ''active'',
       action = ''Apply practical safeguards, boundaries, and contingency plan.''\<rparr>] \<and>
   (\<exists>r. evaluate_child rt0 state0 = Inr r \<and> events r \<noteq> [] \<and>
      suggestions (build_instinct_plan ''t'' r) =
        [\<lparr>parent = ''parentA'', s_metric = ''fear'', s_level = ''urgent'',
          action = ''Talk calmly, validate emotion, guide one grounding breath cycle.''\<rparr>,
         \<lparr>parent = ''parentB'', s_metric = ''learning'', s_level = ''soft'',
          action = ''Break problem into 1 small lesson + 1 practice step.''\<rparr>])"
proof -
  have h: "hasChild (scores_only [(''protection'', 75)])" by (rule scores_only_protection)
  have ne: "events (scores_only [(''protection'', 75)]) \<noteq> []" by (simp add: scores_only_protection)
  have "suggestions (build_instinct_plan ''t'' (scores_only [(''protection'', 75)])) =
      concat (map suggestions_for (events (scores_only [(''protection'', 75)])))"
    by (rule build_instinct_plan_suggestions [OF ne disjI1 [OF h], THEN conjunct1])
  then have p: "suggestions (build_instinct_plan ''t'' (scores_only [(''protection'', 75)])) =
     [\<lparr>parent = ''parentA'', s_metric = ''protection'', s_level = ''active'',
       action = ''Provide emotional safety and reassure child it is not alone.''\<rparr>,
      \<lparr>parent = ''parentB'', s_metric = ''protection'', s_level = ''active'',
       action = ''Apply practical safeguards, boundaries, and contingency plan.''\<rparr>]"
    by (simp add: scores_only_protection suggestions_for_cases PARENT_ACTIONS_def)
  obtain r where r: "evaluate_child rt0 state0 = Inr r"
    and evs: "events r = [\<lparr>metric = ''fear'', score = 90, level = ''urgent''\<rparr>,
                          \<lparr>metric = ''learning'', score = 50, level = ''soft''\<rparr>]"
    using evaluate_child_state0 by simp
  have ne': "events r \<noteq> []" using evs by simp
  have made: "hasChild r \<or> (\<exists>rt state. evaluate_child rt state = Inr r)" using r by blast
  have "suggestions (build_instinct_plan ''t'' r) = concat (map suggestions_for (events r))"
    by (rule build_instinct_plan_suggestions [OF ne' made, THEN conjunct1])
  then have q: "suggestions (build_instinct_plan ''t'' r) =
        [\<lparr>parent = ''parentA'', s_metric = ''fear'', s_level = ''urgent'',
          action = ''Talk calmly, validate emotion, guide one grounding breath cycle.''\<rparr>,
         \<lparr>parent = ''parentB'', s_metric = ''learning'', s_level = ''soft'',
          action = ''Break problem into 1 small lesson + 1 practice step.''\<rparr>]"
    by (simp add: evs suggestions_for_cases PARENT_ACTIONS_def)
  from r ne' q have "\<exists>r. evaluate_child rt0 state0 = Inr r \<and> events r \<noteq> [] \<and>
      suggestions (build_instinct_plan ''t'' r) =
        [\<lparr>parent = ''parentA'', s_metric = ''fear'', s_level = ''urgent'',
          action = ''Talk calmly, validate emotion, guide one grounding breath cycle.''\<rparr>,
         \<lparr>parent = ''parentB'', s_metric = ''learning'', s_level = ''soft'',
          action = ''Break problem into 1 small lesson + 1 practice step.''\<rparr>]"
    by (intro exI [of _ r] conjI)
  with ne h p show ?thesis by (intro conjI)
qed

text \<open>
  Claim C7. When there is at least one event, in an evaluation with \<open>hasChild\<close> true
  or one that \<open>evaluate_child\<close> returned, the crons are the same three descriptors
  whatever the events are, named
  parentality-keepalive-check, parentality-instinct-intervention and
  parentality-recovery-check in this order, and only the last one carries a
  \<open>startedAt\<close> timestamp.
\<close>

theorem build_instinct_plan_crons:
  assumes "events ev \<noteq> []"
    and "hasChild ev \<or> (\<exists>rt state. evaluate_child rt state = Inr ev)"
  shows "crons (build_instinct_plan now ev) = plan_crons now \<and>
    length (crons (build_instinct_plan now ev)) = 3 \<and>
    map cron_name (crons (build_instinct_plan now ev)) =
      [''parentality-keepalive-check'', ''parentality-instinct-intervention'',
       ''parentality-recovery-check''] \<and>
    map startedAt (crons (build_instinct_plan now ev)) = [None, None, Some now]"
  by (simp add: third_branch [OF assms] plan_crons_def)

theorem build_instinct_plan_crons_witness:
  "events (scores_only [(''fear'', 90)]) \<noteq> [] \<and>
   hasChild (scores_only [(''fear'', 90)]) \<and>
   length (crons (build_instinct_plan ''2026-01-01T00:00:00+00:00'' (scores_only [(''fear'', 90)]))) = 3 \<and>
   map startedAt (crons (build_instinct_plan ''2026-01-01T00:00:00+00:00'' (scores_only [(''fear'', 90)]))) =
     [None, None, Some ''2026-01-01T00:00:00+00:00'']"
proof -
  have h: "hasChild (scores_only [(''fear'', 90)])" by (rule scores_only_fear)
  have ne: "events (scores_only [(''fear'', 90)]) \<noteq> []" by (simp add: scores_only_fear)
  note t = build_instinct_plan_crons [OF ne disjI1 [OF h], of "''2026-01-01T00:00:00+00:00''"]
  from t have 1: "length (crons (build_instinct_plan ''2026-01-01T00:00:00+00:00'' (scores_only [(''fear'', 90)]))) = 3"
    by (elim conjE)
  from t have 2: "map startedAt (crons (build_instinct_plan ''2026-01-01T00:00:00+00:00'' (scores_only [(''fear'', 90)]))) =
     [None, None, Some ''2026-01-01T00:00:00+00:00'']"
    by (elim conjE)
  from ne h 1 2 show ?thesis by (intro conjI)
qed


section \<open>The claims about the recovery comparator\<close>

text \<open>
  Claim C1. For every metric of the previous score map, with previous score \<open>p\<close>:
  the metric is listed as unresolved if and only if the band of \<open>p\<close> is not monitor,
  the delta (\<open>p\<close> minus the current score, the current score being \<open>p\<close> when the
  current map lacks the metric) is below \<open>min_improvement\<close>, and the band of the
  current score is not monitor. Only metrics of the previous map are listed.
  \<open>resolved\<close> holds exactly when the unresolved list is empty, \<open>nextAction\<close> is
  exit-instinct-context when resolved and continue-or-escalate otherwise, and
  \<open>min_improvement\<close> is 8 when it is not given.
\<close>

theorem close_context_unresolved:
  assumes d: "distinct (map fst (get_scores previous))"
    and mp: "(m, p) \<in> set (get_scores previous)"
  shows "(m \<in> set (unresolved (close_context_if_improved previous current mi)) \<longleftrightarrow>
            band_for_score p \<noteq> ''monitor''
            \<and> p - get_default (get_scores current) m p < mi
            \<and> band_for_score (get_default (get_scores current) m p) \<noteq> ''monitor'') \<and>
         set (unresolved (close_context_if_improved previous current mi)) \<subseteq> fst ` set (get_scores previous) \<and>
         resolved (close_context_if_improved previous current mi) =
           (unresolved (close_context_if_improved previous current mi) = []) \<and>
         nextAction (close_context_if_improved previous current mi) =
           (if resolved (close_context_if_improved previous current mi)
            then ''exit-instinct-context'' else ''continue-or-escalate'') \<and>
         close_context_if_improved_default previous current = close_context_if_improved previous current 8"
proof (intro conjI)
  show "m \<in> set (unresolved (close_context_if_improved previous current mi)) \<longleftrightarrow>
            band_for_score p \<noteq> ''monitor''
            \<and> p - get_default (get_scores current) m p < mi
            \<and> band_for_score (get_default (get_scores current) m p) \<noteq> ''monitor''"
    unfolding close_context_unresolved_eq
    by (rule distinct_keys_member [OF d mp])
  show "set (unresolved (close_context_if_improved previous current mi)) \<subseteq> fst ` set (get_scores previous)"
    unfolding close_context_unresolved_eq by auto
  show "resolved (close_context_if_improved previous current mi) =
           (unresolved (close_context_if_improved previous current mi) = [])"
    by (rule close_context_resolved)
  show "nextAction (close_context_if_improved previous current mi) =
           (if resolved (close_context_if_improved previous current mi)
            then ''exit-instinct-context'' else ''continue-or-escalate'')"
    by (rule close_context_resolved)
  show "close_context_if_improved_default previous current = close_context_if_improved previous current 8"
    by (simp add: close_context_if_improved_default_def)
qed

theorem close_context_unresolved_witness:
  "distinct (map fst (get_scores (scores_only [(''fear'', 90)]))) \<and>
   (''fear'', 90) \<in> set (get_scores (scores_only [(''fear'', 90)])) \<and>
   ''fear'' \<in> set (unresolved (close_context_if_improved_default (scores_only [(''fear'', 90)]) (scores_only [(''fear'', 87)]))) \<and>
   nextAction (close_context_if_improved_default (scores_only [(''fear'', 90)]) (scores_only [(''fear'', 87)])) = ''continue-or-escalate'' \<and>
   ''fear'' \<notin> set (unresolved (close_context_if_improved_default (scores_only [(''fear'', 90)]) (scores_only [(''fear'', 10)])))"
proof -
  have d: "distinct (map fst (get_scores (scores_only [(''fear'', 90)])))"
    by (simp add: get_scores_scores_only)
  have mp: "(''fear'', 90) \<in> set (get_scores (scores_only [(''fear'', 90)]))"
    by (simp add: get_scores_scores_only)
  note t1 = close_context_unresolved [OF d mp, of "scores_only [(''fear'', 87)]" 8]
  note t2 = close_context_unresolved [OF d mp, of "scores_only [(''fear'', 10)]" 8]
  have c1: "band_for_score 90 \<noteq> ''monitor''
            \<and> 90 - get_default (get_scores (scores_only [(''fear'', 87)])) ''fear'' 90 < 8
            \<and> band_for_score (get_default (get_scores (scores_only [(''fear'', 87)])) ''fear'' 90) \<noteq> ''monitor''"
    by (simp add: get_scores_scores_only get_default_def band_for_score_cases)
  have c2: "\<not> (band_for_score 90 \<noteq> ''monitor''
            \<and> 90 - get_default (get_scores (scores_only [(''fear'', 10)])) ''fear'' 90 < 8
            \<and> band_for_score (get_default (get_scores (scores_only [(''fear'', 10)])) ''fear'' 90) \<noteq> ''monitor'')"
    by (simp add: get_scores_scores_only get_default_def band_for_score_cases)
  from t1 c1 have u1: "''fear'' \<in> set (unresolved (close_context_if_improved (scores_only [(''fear'', 90)]) (scores_only [(''fear'', 87)]) 8))"
    by blast
  from t2 c2 have u2: "''fear'' \<notin> set (unresolved (close_context_if_improved (scores_only [(''fear'', 90)]) (scores_only [(''fear'', 10)]) 8))"
    by blast
  from u1 have ne: "unresolved (close_context_if_improved (scores_only [(''fear'', 90)]) (scores_only [(''fear'', 87)]) 8) \<noteq> []"
    by auto
  from t1 ne have n1: "nextAction (close_context_if_improved (scores_only [(''fear'', 90)]) (scores_only [(''fear'', 87)]) 8) = ''continue-or-escalate''"
    by presburger
  from d mp u1 u2 n1 show ?thesis
    by (simp only: close_context_if_improved_default_def) blast
qed

text \<open>
  Claim C4. The improvements map has exactly one entry per metric of the previous
  score map, in its order, and none for any other metric (one that only the current
  map has gets no entry). The entry is the previous score minus the current score,
  the current score being the previous one when the current map lacks the metric, so
  that the delta is then 0; no band is consulted.
\<close>

theorem close_context_improvements:
  assumes d: "distinct (map fst (get_scores previous))"
  shows "map fst (improvements (close_context_if_improved previous current mi)) = map fst (get_scores previous) \<and>
    (\<forall>(m, p)\<in>set (get_scores previous).
       map_of (improvements (close_context_if_improved previous current mi)) m =
         Some (p - (case map_of (get_scores current) m of None \<Rightarrow> p | Some c \<Rightarrow> c))) \<and>
    (\<forall>(m, p)\<in>set (get_scores previous).
       map_of (get_scores current) m = None \<longrightarrow>
       map_of (improvements (close_context_if_improved previous current mi)) m = Some 0) \<and>
    (\<forall>m. m \<notin> fst ` set (get_scores previous) \<longrightarrow>
       map_of (improvements (close_context_if_improved previous current mi)) m = None)"
proof -
  let ?prev = "get_scores previous"
  let ?f = "\<lambda>(m, p). (m, p - get_default (get_scores current) m p)"
  have imp: "improvements (close_context_if_improved previous current mi) = map ?f ?prev"
    by (rule close_context_improvements_eq [OF d])
  have keys: "map fst (map ?f ?prev) = map fst ?prev" by (rule map_fst_delta)
  have look: "map_of (map ?f ?prev) m = Some (p - get_default (get_scores current) m p)"
    if "(m, p) \<in> set ?prev" for m p
    using map_of_delta [OF d that, of "\<lambda>m p. p - get_default (get_scores current) m p"] .
  have none: "map_of (map ?f ?prev) m = None" if "m \<notin> fst ` set ?prev" for m
  proof -
    have "fst ` set (map ?f ?prev) = fst ` set ?prev" using keys by (metis set_map)
    with that show ?thesis by (simp only: map_of_eq_None_iff) simp
  qed
  show ?thesis
    unfolding imp using keys look none by (auto simp: get_default_def)
qed

theorem close_context_improvements_witness:
  "distinct (map fst (get_scores (scores_only [(''fear'', 90), (''anger'', 50)]))) \<and>
   improvements (close_context_if_improved (scores_only [(''fear'', 90), (''anger'', 50)])
       (scores_only [(''fear'', 87), (''learning'', 60)]) 8) = [(''fear'', 3), (''anger'', 0)]"
proof -
  have d: "distinct (map fst (get_scores (scores_only [(''fear'', 90), (''anger'', 50)])))"
    by (simp add: get_scores_scores_only)
  let ?R = "close_context_if_improved (scores_only [(''fear'', 90), (''anger'', 50)])
       (scores_only [(''fear'', 87), (''learning'', 60)]) 8"
  note t = close_context_improvements [OF d, of "scores_only [(''fear'', 87), (''learning'', 60)]" 8]
  from t have k: "map fst (improvements ?R) = [''fear'', ''anger'']"
    by (simp add: get_scores_scores_only)
  from t have f: "map_of (improvements ?R) ''fear'' = Some 3"
    by (simp add: get_scores_scores_only)
  from t have a: "map_of (improvements ?R) ''anger'' = Some 0"
    by (simp add: get_scores_scores_only)
  from k obtain x y where xy: "improvements ?R = [(''fear'', x), (''anger'', y)]"
    by (auto simp: map_eq_Cons_conv)
  with f a have "x = 3" "y = 0" by simp_all
  with xy d show ?thesis by simp
qed

text \<open>
  Claim C10. The comparator reads the scores as they are, unclamped. For a metric
  whose previous score \<open>p\<close> is negative or above 100, no band of \<open>BANDS\<close> holds \<open>p\<close>,
  \<open>band_for_score\<close> falls through to monitor, and the metric is not listed as
  unresolved, whatever the current score and \<open>min_improvement\<close> are; its delta is
  still computed from the raw score.
\<close>

theorem close_context_out_of_range:
  assumes d: "distinct (map fst (get_scores previous))"
    and mp: "(m, p) \<in> set (get_scores previous)"
    and out: "p < 0 \<or> 100 < p"
  shows "filter (\<lambda>b. min_band b \<le> p \<and> p \<le> max_band b) BANDS = [] \<and>
         band_for_score p = ''monitor'' \<and>
         m \<notin> set (unresolved (close_context_if_improved previous current mi)) \<and>
         map_of (improvements (close_context_if_improved previous current mi)) m =
           Some (p - get_default (get_scores current) m p)"
proof (intro conjI)
  show "filter (\<lambda>b. min_band b \<le> p \<and> p \<le> max_band b) BANDS = []"
    using out by (rule no_band_matches)
  show mon: "band_for_score p = ''monitor''"
    using out by (auto simp: band_for_score_cases)
  show "m \<notin> set (unresolved (close_context_if_improved previous current mi))"
    unfolding close_context_unresolved_eq
    using distinct_keys_member [OF d mp, of "\<lambda>k v. band_for_score v \<noteq> ''monitor''
                        \<and> v - get_default (get_scores current) k v < mi
                        \<and> band_for_score (get_default (get_scores current) k v) \<noteq> ''monitor''"] mon
    by simp
  have "improvements (close_context_if_improved previous current mi) =
      map (\<lambda>(m, p). (m, p - get_default (get_scores current) m p)) (get_scores previous)"
    by (rule close_context_improvements_eq [OF d])
  moreover have "map_of (map (\<lambda>(m, p). (m, p - get_default (get_scores current) m p)) (get_scores previous)) m
      = Some (p - get_default (get_scores current) m p)"
    using map_of_delta [OF d mp, of "\<lambda>m p. p - get_default (get_scores current) m p"] .
  ultimately show "map_of (improvements (close_context_if_improved previous current mi)) m =
           Some (p - get_default (get_scores current) m p)" by simp
qed

theorem close_context_out_of_range_witness:
  "distinct (map fst (get_scores (scores_only [(''fear'', 101)]))) \<and>
   (''fear'', 101) \<in> set (get_scores (scores_only [(''fear'', 101)])) \<and>
   ((101::int) < 0 \<or> (100::int) < 101) \<and>
   band_for_score 101 = ''monitor'' \<and>
   ''fear'' \<notin> set (unresolved (close_context_if_improved (scores_only [(''fear'', 101)]) (scores_only [(''fear'', 100)]) 8)) \<and>
   map_of (improvements (close_context_if_improved (scores_only [(''fear'', 101)]) (scores_only [(''fear'', 100)]) 8)) ''fear'' = Some 1"
proof -
  have d: "distinct (map fst (get_scores (scores_only [(''fear'', 101)])))"
    by (simp add: get_scores_scores_only)
  have mp: "(''fear'', 101) \<in> set (get_scores (scores_only [(''fear'', 101)]))"
    by (simp add: get_scores_scores_only)
  have out: "(101::int) < 0 \<or> (100::int) < 101" by simp
  from close_context_out_of_range [OF d mp out, of "scores_only [(''fear'', 100)]" 8] d mp
  show ?thesis by (simp add: get_scores_scores_only get_default_def)
qed

end
